theory Spec2Isabelle
  imports Main "HOL-Library.Word"
begin

unbundle bit_operations_syntax

section \<open>Python values: exceptions and list indexing\<close>

text \<open>
  Integers of the program are Python integers, hence \<^typ>\<open>int\<close>: \<open>&\<close>, \<open>|\<close>, \<open>^\<close>
  are \<open>AND\<close>, \<open>OR\<close>, \<open>XOR\<close> on two's complement of unbounded width, \<open>a << n\<close>
  is \<open>push_bit n a\<close> and \<open>a >> n\<close> (a floor division) is \<open>drop_bit n a\<close>.
\<close>

datatype py_error = IndexError | ValueError | UnicodeEncodeError | UnicodeDecodeError

text \<open>
  The position that a Python index denotes in a sequence of \<open>n\<close> elements: \<open>-1\<close> is the
  last element, \<open>-n\<close> the first, and an index outside \<open>-n .. n-1\<close> denotes none.
\<close>

definition py_index :: "nat \<Rightarrow> int \<Rightarrow> nat option" where
  "py_index n i =
     (if 0 \<le> i \<and> i < int n then Some (nat i)
      else if - int n \<le> i \<and> i < 0 then Some (nat (int n + i))
      else None)"

text \<open>\<open>xs[i]\<close> and \<open>xs[i] = v\<close>; both raise IndexError where the index denotes no position.\<close>

definition py_getitem :: "'a list \<Rightarrow> int \<Rightarrow> py_error + 'a" where
  "py_getitem xs i =
     (case py_index (length xs) i of None \<Rightarrow> Inl IndexError | Some k \<Rightarrow> Inr (xs ! k))"

definition py_setitem :: "'a list \<Rightarrow> int \<Rightarrow> 'a \<Rightarrow> py_error + 'a list" where
  "py_setitem xs i v =
     (case py_index (length xs) i of None \<Rightarrow> Inl IndexError | Some k \<Rightarrow> Inr (xs[k := v]))"

section \<open>Field arithmetic\<close>

text \<open>
  \<open>gf_mult\<close>: the loop body runs eight times on the triple \<open>(p, a, b)\<close>; the result is
  \<open>p & 0xFF\<close>.
\<close>

fun gf_loop :: "nat \<Rightarrow> int \<Rightarrow> int \<Rightarrow> int \<Rightarrow> int" where
  "gf_loop 0 p a b = p"
| "gf_loop (Suc n) p a b =
     (let p1 = (if b AND 1 \<noteq> 0 then p XOR a else p);
          hibit = a AND 0x80;
          a1 = push_bit 1 a;
          a2 = (if hibit \<noteq> 0 then a1 XOR 0x11B else a1);
          b1 = drop_bit 1 b
      in gf_loop n p1 a2 b1)"

definition gf_mult :: "int \<Rightarrow> int \<Rightarrow> int" where
  "gf_mult a b = gf_loop 8 0 a b AND 0xFF"

text \<open>
  \<open>gf_inverse\<close>: the search \<open>for i in range(256)\<close> returns the first candidate whose
  product with \<open>byte\<close> is 1, and 0 when the candidates are exhausted.
\<close>

fun gf_inverse_loop :: "int \<Rightarrow> int list \<Rightarrow> int" where
  "gf_inverse_loop byte [] = 0"
| "gf_inverse_loop byte (i # rest) =
     (if gf_mult byte i = 1 then i else gf_inverse_loop byte rest)"

definition gf_inverse :: "int \<Rightarrow> int" where
  "gf_inverse byte = (if byte = 0 then 0 else gf_inverse_loop byte (map int [0..<256]))"

section \<open>Affine transform\<close>

text \<open>
  The inner loop of \<open>apply_affine\<close> over \<open>j\<close>, for one row of the matrix: the source's \<open>bit\<close> (here \<open>bitv\<close>) is flipped
  for every \<open>j\<close> at which both the row and \<open>byte_val\<close> have a one.
\<close>

primrec affine_inner :: "nat list \<Rightarrow> int \<Rightarrow> int \<Rightarrow> int \<Rightarrow> int" where
  "affine_inner [] row byte_val bitv = bitv"
| "affine_inner (j # js) row byte_val bitv =
     affine_inner js row byte_val
       (if drop_bit j row AND 1 \<noteq> 0
        then (if drop_bit j byte_val AND 1 \<noteq> 0 then bitv XOR 1 else bitv)
        else bitv)"

text \<open>
  The outer loop over \<open>i\<close>. The row \<open>matrix[i]\<close> is read once per \<open>i\<close> here; the source
  reads it again for every \<open>j\<close>, with the same outcome, an IndexError included.
\<close>

primrec affine_outer :: "nat list \<Rightarrow> int \<Rightarrow> int list \<Rightarrow> int \<Rightarrow> py_error + int" where
  "affine_outer [] byte_val matrix result = Inr result"
| "affine_outer (i # is) byte_val matrix result =
     (case py_getitem matrix (int i) of
        Inl e \<Rightarrow> Inl e
      | Inr row \<Rightarrow>
          affine_outer is byte_val matrix
            (if affine_inner [0..<8] row byte_val 0 \<noteq> 0 then result OR push_bit i 1
             else result))"

definition apply_affine :: "int \<Rightarrow> int list \<Rightarrow> int \<Rightarrow> py_error + int" where
  "apply_affine byte_val matrix constant =
     (case affine_outer [0..<8] byte_val matrix 0 of
        Inl e \<Rightarrow> Inl e
      | Inr result \<Rightarrow> Inr (result XOR constant))"

section \<open>Table builder\<close>

primrec sbox_loop :: "int list \<Rightarrow> int list \<Rightarrow> int \<Rightarrow> int list \<Rightarrow> py_error + int list" where
  "sbox_loop [] matrix constant sbox = Inr sbox"
| "sbox_loop (x # xs) matrix constant sbox =
     (case apply_affine (gf_inverse x) matrix constant of
        Inl e \<Rightarrow> Inl e
      | Inr val \<Rightarrow> sbox_loop xs matrix constant (sbox @ [val]))"

definition generate_sbox_logic :: "int list \<Rightarrow> int \<Rightarrow> py_error + int list" where
  "generate_sbox_logic matrix constant = sbox_loop (map int [0..<256]) matrix constant []"

definition K44_MATRIX :: "int list" where
  "K44_MATRIX = [0x57, 0xAB, 0xD5, 0xEA, 0x75, 0xBA, 0x5D, 0xAE]"

definition K44_CONST :: int where
  "K44_CONST = 0x63"

section \<open>Table state\<close>

record table_state =
  CURRENT_SBOX :: "int list"
  CURRENT_INV_SBOX :: "int list"

text \<open>
  The loop \<open>for i, val in enumerate(CURRENT_SBOX): CURRENT_INV_SBOX[val] = i\<close>. It writes
  into the list in place, so a write that raises leaves the earlier writes behind: the
  loop returns the list as it stands together with the exception, if any.
\<close>

definition py_enumerate :: "'a list \<Rightarrow> (int \<times> 'a) list" where
  "py_enumerate xs = zip (map int [0..<length xs]) xs"

primrec inv_sbox_loop :: "(int \<times> int) list \<Rightarrow> int list \<Rightarrow> int list \<times> py_error option" where
  "inv_sbox_loop [] isb = (isb, None)"
| "inv_sbox_loop (p # ps) isb =
     (case py_setitem isb (snd p) (fst p) of
        Inl e \<Rightarrow> (isb, Some e)
      | Inr isb' \<Rightarrow> inv_sbox_loop ps isb')"

text \<open>
  The two assignments and the loop that \<open>startup_event\<close> and \<open>run_analysis\<close> share:
  \<open>CURRENT_SBOX\<close> is bound only when the generation returns, \<open>CURRENT_INV_SBOX\<close> is bound
  to 256 zeros and then filled.
\<close>

definition rebuild_tables :: "int list \<Rightarrow> int \<Rightarrow> table_state \<Rightarrow> table_state \<times> py_error option" where
  "rebuild_tables matrix constant st =
     (case generate_sbox_logic matrix constant of
        Inl e \<Rightarrow> (st, Some e)
      | Inr sbox \<Rightarrow>
          (case inv_sbox_loop (py_enumerate sbox) (replicate 256 0) of
             (isb, r) \<Rightarrow> (\<lparr>CURRENT_SBOX = sbox, CURRENT_INV_SBOX = isb\<rparr>, r)))"

definition startup_event :: "table_state \<Rightarrow> table_state \<times> py_error option" where
  "startup_event st = rebuild_tables K44_MATRIX K44_CONST st"

section \<open>Endpoints\<close>

text \<open>
  A request ends in a response or in an HTTP error: an \<open>HTTPException\<close> raised by the
  handler, with its status and detail, or an exception that leaves the handler, which the
  server answers with status 500.
\<close>

datatype detail = Literal string | Str_of py_error

datatype http_error = HTTPException nat detail | Unhandled py_error

text \<open>The request body of \<open>run_analysis\<close>, with the fields \<open>matrix\<close> and \<open>constant\<close>.\<close>

record MatrixInput =
  mi_matrix :: "int list"
  mi_constant :: int

datatype metric = Int_metric int | Decimal_metric int nat | Str_metric string

text \<open>
  The dictionary literal \<open>metrics\<close> of \<open>run_analysis\<close>, in its order; a float literal is
  kept as its digits and the number of digits after the point (\<open>0.50073\<close> is
  \<open>Decimal_metric 50073 5\<close>).
\<close>

definition metrics_literal :: "(string \<times> metric) list" where
  "metrics_literal =
     [(''NL'', Int_metric 112), (''SAC'', Decimal_metric 50073 5),
      (''BIC-NL'', Int_metric 112), (''BIC-SAC'', Decimal_metric 504 3),
      (''LAP'', Decimal_metric 625 4), (''DAP'', Decimal_metric 15625 6),
      (''DU'', Int_metric 4), (''AD'', Int_metric 7), (''TO'', Str_metric ''Min''),
      (''CI'', Int_metric 0)]"

record analysis_response =
  sbox_hex :: "string list"
  metrics :: "(string \<times> metric) list"

text \<open>The format \<open>f"{x:02X}"\<close>: upper-case hexadecimal, zero-padded to two characters, a
  minus sign counting as one of them.\<close>

definition hex_alphabet :: string where
  "hex_alphabet = ''0123456789ABCDEF''"

definition hex_char :: "nat \<Rightarrow> char" where
  "hex_char d = hex_alphabet ! d"

fun hex_digits :: "nat \<Rightarrow> string" where
  "hex_digits n = (if n < 16 then [hex_char n] else hex_digits (n div 16) @ [hex_char (n mod 16)])"

definition format_02X :: "int \<Rightarrow> string" where
  "format_02X x =
     (if x < 0 then CHR ''-'' # hex_digits (nat (- x))
      else if x < 16 then CHR ''0'' # hex_digits (nat x)
      else hex_digits (nat x))"

definition run_analysis :: "MatrixInput \<Rightarrow> table_state \<Rightarrow> table_state \<times> (http_error + analysis_response)" where
  "run_analysis data st =
     (case rebuild_tables (mi_matrix data) (mi_constant data) st of
        (st', Some e) \<Rightarrow> (st', Inl (Unhandled e))
      | (st', None) \<Rightarrow>
          (st', Inr \<lparr>sbox_hex = map format_02X (CURRENT_SBOX st'), metrics = metrics_literal\<rparr>))"

section \<open>Substitution\<close>

text \<open>
  The comprehension \<open>[CURRENT_SBOX[b] for b in plaintext_bytes]\<close> of \<open>encrypt_test\<close>
  (and the same with \<open>CURRENT_INV_SBOX\<close> in \<open>decrypt_test\<close>): the elements are looked up
  from left to right, and the first lookup that raises ends the comprehension.
\<close>

fun substitute :: "int list \<Rightarrow> int list \<Rightarrow> py_error + int list" where
  "substitute [] table = Inr []"
| "substitute (b # bs) table =
     (case py_getitem table b of
        Inl e \<Rightarrow> Inl e
      | Inr v \<Rightarrow> (case substitute bs table of
                   Inl e \<Rightarrow> Inl e
                 | Inr vs \<Rightarrow> Inr (v # vs)))"

section \<open>Substitution keeps length and position\<close>

lemma substitute_Inr_length:
  "substitute data table = Inr out \<Longrightarrow> length out = length data"
  by (induction data arbitrary: out) (auto split: sum.splits)

lemma substitute_Inr_nth:
  "substitute data table = Inr out \<Longrightarrow> i < length data \<Longrightarrow>
   py_getitem table (data ! i) = Inr (out ! i)"
proof (induction data arbitrary: out i)
  case Nil
  then show ?case by simp
next
  case (Cons b bs)
  then show ?case
    by (cases i) (auto split: sum.splits)
qed

lemma py_getitem_in_range:
  "- int (length xs) \<le> i \<Longrightarrow> i < int (length xs) \<Longrightarrow> \<exists>v. py_getitem xs i = Inr v"
  by (simp add: py_getitem_def py_index_def)

lemma substitute_total:
  "\<forall>b \<in> set data. - int (length table) \<le> b \<and> b < int (length table) \<Longrightarrow>
   \<exists>out. substitute data table = Inr out"
proof (induction data)
  case Nil
  then show ?case by simp
next
  case (Cons b bs)
  then have "- int (length table) \<le> b \<and> b < int (length table)"
    by simp
  then obtain v where v: "py_getitem table b = Inr v"
    using py_getitem_in_range [of table b] by blast
  from Cons obtain vs where "substitute bs table = Inr vs"
    by auto
  with v show ?case by simp
qed

text \<open>
  C9. Substitution through any table keeps length and order: when every byte of the data
  indexes inside the table (as the bytes 0..255 do in a table of 256 entries), the
  comprehension returns a sequence of the length of the data whose element at each
  position is the table entry of the data byte at that position, and nothing else of the
  data enters it.
\<close>

theorem substitute_length_position:
  assumes "\<forall>b \<in> set data. 0 \<le> b \<and> b < int (length table)"
  shows "\<exists>out. substitute data table = Inr out \<and> length out = length data \<and>
           (\<forall>i < length data. out ! i = table ! nat (data ! i))"
proof -
  from assms have "\<exists>out. substitute data table = Inr out"
    by (intro substitute_total) auto
  then obtain out where out: "substitute data table = Inr out" ..
  have "out ! i = table ! nat (data ! i)" if "i < length data" for i
  proof -
    from that assms have r: "0 \<le> data ! i \<and> data ! i < int (length table)"
      by simp
    from substitute_Inr_nth [OF out that] r show ?thesis
      by (simp add: py_getitem_def py_index_def)
  qed
  with out substitute_Inr_length [OF out] show ?thesis by blast
qed

theorem substitute_length_position_witness:
  "\<exists>out. substitute [2, 0, 2] [7, 8, 9] = Inr out \<and> length out = 3 \<and>
     out ! 0 = 9 \<and> out ! 1 = 7 \<and> out ! 2 = 9"
proof -
  have h: "\<forall>b \<in> set [2, 0, 2 :: int]. 0 \<le> b \<and> b < int (length [7, 8, 9 :: int])"
    by simp
  from substitute_length_position [OF h] obtain out where
    o: "substitute [2, 0, 2] [7, 8, 9] = Inr out" "length out = length [2, 0, 2 :: int]"
       "\<forall>i < length [2, 0, 2 :: int]. out ! i = [7, 8, 9] ! nat ([2, 0, 2] ! i)"
    by blast
  from o(3) have "out ! 0 = 9" "out ! 1 = 7" "out ! 2 = 9"
    by simp_all
  with o(1,2) show ?thesis by simp
qed

section \<open>Affine results are bytes\<close>

lemma py_getitem_nth: "i < length xs \<Longrightarrow> py_getitem xs (int i) = Inr (xs ! i)"
  by (simp add: py_getitem_def py_index_def)

lemma byte_or_bit:
  fixes r :: int
  assumes "0 \<le> r" "r < 256" "i < 8"
  shows "0 \<le> r OR push_bit i 1 \<and> r OR push_bit i 1 < 256"
proof -
  have "(2::int) ^ i < 2 ^ 8"
    using assms(3) by (intro power_strict_increasing) auto
  then have p: "push_bit i (1::int) < 2 ^ 8" "0 \<le> push_bit i (1::int)"
    by (simp_all add: push_bit_eq_mult)
  have "r OR push_bit i 1 < 2 ^ 8"
    using assms p by (intro OR_upper) auto
  then show ?thesis using assms p by simp
qed

lemma byte_xor:
  fixes r c :: int
  assumes "0 \<le> r" "r < 256" "0 \<le> c" "c < 256"
  shows "0 \<le> r XOR c \<and> r XOR c < 256"
proof -
  have "r XOR c < 2 ^ 8"
    using assms by (intro XOR_upper) auto
  then show ?thesis using assms by simp
qed

lemma affine_outer_byte:
  "\<forall>i \<in> set is. i < 8 \<and> i < length matrix \<Longrightarrow> 0 \<le> r \<Longrightarrow> r < 256 \<Longrightarrow>
   \<exists>v. affine_outer is byte_val matrix r = Inr v \<and> 0 \<le> v \<and> v < 256"
proof (induction "is" arbitrary: r)
  case Nil
  then show ?case by simp
next
  case (Cons i js)
  then have i: "i < 8" "i < length matrix" by simp_all
  have "0 \<le> r OR push_bit i 1 \<and> r OR push_bit i 1 < 256"
    using byte_or_bit [OF Cons.prems(2,3) i(1)] .
  with Cons show ?case
    by (simp add: py_getitem_nth [OF i(2)])
qed

lemma apply_affine_byte:
  assumes "length matrix = 8" "0 \<le> constant" "constant < 256"
  shows "\<exists>v. apply_affine byte_val matrix constant = Inr v \<and> 0 \<le> v \<and> v < 256"
proof -
  have "\<forall>i \<in> set [0..<8]. i < 8 \<and> i < length matrix"
    using assms(1) by simp
  from affine_outer_byte [OF this, of 0 byte_val] obtain r where
    r: "affine_outer [0..<8] byte_val matrix 0 = Inr r" "0 \<le> r" "r < 256"
    by auto
  from byte_xor [OF r(2,3) assms(2,3)] r(1) show ?thesis
    by (simp add: apply_affine_def)
qed


lemma drop_bit_and_1: "(drop_bit j (x::int) AND 1 \<noteq> 0) = bit x j"
  by (simp add: and_one_eq bit_iff_odd_drop_bit mod_2_eq_odd)

lemma and_255_take_bit: "(x::int) AND 0xFF = take_bit 8 x"
  by (simp add: take_bit_eq_mask mask_eq_exp_minus_1)

lemma bit_and_255: "j < 8 \<Longrightarrow> bit ((x::int) AND 0xFF) j = bit x j"
  by (simp only: and_255_take_bit bit_take_bit_iff simp_thms)

lemma affine_inner_low_bits:
  "\<forall>j \<in> set js. j < 8 \<Longrightarrow>
   affine_inner js (row AND 0xFF) (byte_val AND 0xFF) bitv = affine_inner js row byte_val bitv"
proof (induction js arbitrary: bitv)
  case Nil
  then show ?case by simp
next
  case (Cons j js)
  then have j: "j < 8" and js: "\<forall>j \<in> set js. j < 8" by simp_all
  show ?case
    unfolding affine_inner.simps drop_bit_and_1 bit_and_255 [OF j]
    by (rule Cons.IH [OF js])
qed

lemma affine_outer_low_bits:
  "\<forall>i \<in> set is. i < length matrix \<Longrightarrow>
   affine_outer is (byte_val AND 0xFF) (map (\<lambda>r. r AND 0xFF) matrix) result
     = affine_outer is byte_val matrix result"
proof (induction "is" arbitrary: result)
  case Nil
  then show ?case by simp
next
  case (Cons i js)
  then have i: "i < length matrix" by simp
  have "affine_inner [0..<8] (matrix ! i AND 0xFF) (byte_val AND 0xFF) 0
          = affine_inner [0..<8] (matrix ! i) byte_val 0"
    by (rule affine_inner_low_bits) simp
  with Cons i show ?case
    by (simp add: py_getitem_nth)
qed

lemma apply_affine_low_bits:
  "length matrix = 8 \<Longrightarrow>
   apply_affine (byte_val AND 0xFF) (map (\<lambda>r. r AND 0xFF) matrix) constant
     = apply_affine byte_val matrix constant"
  by (simp add: apply_affine_def affine_outer_low_bits)

lemma sbox_loop_spec:
  assumes "length matrix = 8" "0 \<le> constant" "constant < 256"
  shows "\<exists>vs. sbox_loop xs matrix constant acc = Inr (acc @ vs) \<and> length vs = length xs \<and>
           (\<forall>k < length xs. apply_affine (gf_inverse (xs ! k)) matrix constant = Inr (vs ! k)) \<and>
           (\<forall>v \<in> set vs. 0 \<le> v \<and> v < 256)"
proof (induction xs arbitrary: acc)
  case Nil
  then show ?case by simp
next
  case (Cons x xs)
  from apply_affine_byte [OF assms, of "gf_inverse x"] obtain v where
    v: "apply_affine (gf_inverse x) matrix constant = Inr v" "0 \<le> v" "v < 256"
    by blast
  from Cons [of "acc @ [v]"] obtain vs where
    vs: "sbox_loop xs matrix constant (acc @ [v]) = Inr ((acc @ [v]) @ vs)" "length vs = length xs"
        "\<forall>k < length xs. apply_affine (gf_inverse (xs ! k)) matrix constant = Inr (vs ! k)"
        "\<forall>v \<in> set vs. 0 \<le> v \<and> v < 256"
    by blast
  have "\<forall>k < length (x # xs). apply_affine (gf_inverse ((x # xs) ! k)) matrix constant = Inr ((v # vs) ! k)"
    using v(1) vs(3) by (auto simp: nth_Cons split: nat.splits)
  moreover have "sbox_loop (x # xs) matrix constant acc = Inr (acc @ v # vs)"
    using v(1) vs(1) by simp
  moreover have "\<forall>w \<in> set (v # vs). 0 \<le> w \<and> w < 256"
    using v vs(4) by simp
  ultimately show ?case using vs(2)
    by (intro exI [of _ "v # vs"]) simp
qed

lemma generate_sbox_logic_spec:
  assumes "length matrix = 8" "0 \<le> constant" "constant < 256"
  shows "\<exists>sbox. generate_sbox_logic matrix constant = Inr sbox \<and> length sbox = 256 \<and>
           (\<forall>x < 256. apply_affine (gf_inverse (int x)) matrix constant = Inr (sbox ! x)) \<and>
           (\<forall>v \<in> set sbox. 0 \<le> v \<and> v < 256)"
proof -
  from sbox_loop_spec [OF assms, of "map int [0..<256]" "[]"] obtain vs where
    vs: "sbox_loop (map int [0..<256]) matrix constant [] = Inr vs" "length vs = 256"
        "\<forall>k < 256. apply_affine (gf_inverse (map int [0..<256] ! k)) matrix constant = Inr (vs ! k)"
        "\<forall>v \<in> set vs. 0 \<le> v \<and> v < 256"
    by auto
  have "\<forall>x < 256. apply_affine (gf_inverse (int x)) matrix constant = Inr (vs ! x)"
  proof (intro allI impI)
    fix x :: nat
    assume x: "x < 256"
    then have "map int [0..<256] ! x = int x" by simp
    with vs(3) x show "apply_affine (gf_inverse (int x)) matrix constant = Inr (vs ! x)"
      by metis
  qed
  with vs show ?thesis
    by (simp add: generate_sbox_logic_def)
qed


section \<open>The inverse table\<close>

lemma inv_sbox_loop_append:
  "inv_sbox_loop (ps @ qs) isb =
     (case inv_sbox_loop ps isb of
        (isb', None) \<Rightarrow> inv_sbox_loop qs isb'
      | (isb', Some e) \<Rightarrow> (isb', Some e))"
  by (induction ps arbitrary: isb) (simp_all split: sum.splits)

lemma py_enumerate_snoc: "py_enumerate (t @ [x]) = py_enumerate t @ [(int (length t), x)]"
  by (simp add: py_enumerate_def)

lemma py_setitem_byte:
  "0 \<le> v \<Longrightarrow> v < int (length xs) \<Longrightarrow> py_setitem xs v w = Inr (xs[nat v := w])"
  by (simp add: py_setitem_def py_index_def)

lemma inv_sbox_loop_policy:
  "\<forall>v \<in> set t. 0 \<le> v \<and> v < int n \<Longrightarrow>
   \<exists>isb. inv_sbox_loop (py_enumerate t) (replicate n 0) = (isb, None) \<and> length isb = n \<and>
     (\<forall>v < n. (int v \<notin> set t \<longrightarrow> isb ! v = 0) \<and>
        (\<forall>i < length t. t ! i = int v \<and> (\<forall>j < length t. i < j \<longrightarrow> t ! j \<noteq> int v)
           \<longrightarrow> isb ! v = int i))"
proof (induction t rule: rev_induct)
  case Nil
  then show ?case by (simp add: py_enumerate_def)
next
  case (snoc x t)
  then have x: "0 \<le> x" "x < int n" and t: "\<forall>v \<in> set t. 0 \<le> v \<and> v < int n"
    by simp_all
  from snoc.IH [OF t] obtain isb where
    isb: "inv_sbox_loop (py_enumerate t) (replicate n 0) = (isb, None)" "length isb = n"
      "\<forall>v < n. (int v \<notin> set t \<longrightarrow> isb ! v = 0) \<and>
         (\<forall>i < length t. t ! i = int v \<and> (\<forall>j < length t. i < j \<longrightarrow> t ! j \<noteq> int v)
            \<longrightarrow> isb ! v = int i)"
    by blast
  let ?isb = "isb[nat x := int (length t)]"
  have run: "inv_sbox_loop (py_enumerate (t @ [x])) (replicate n 0) = (?isb, None)"
    using isb(1,2) x by (simp add: py_enumerate_snoc inv_sbox_loop_append py_setitem_byte)
  have pol: "(int v \<notin> set (t @ [x]) \<longrightarrow> ?isb ! v = 0) \<and>
        (\<forall>i < length (t @ [x]). (t @ [x]) ! i = int v \<and>
            (\<forall>j < length (t @ [x]). i < j \<longrightarrow> (t @ [x]) ! j \<noteq> int v)
           \<longrightarrow> ?isb ! v = int i)" if v: "v < n" for v
  proof (cases "int v = x")
    case True
    then have nv: "nat x = v" by simp
    have "?isb ! v = int i"
      if i: "i < length (t @ [x])" "(t @ [x]) ! i = int v"
        "\<forall>j < length (t @ [x]). i < j \<longrightarrow> (t @ [x]) ! j \<noteq> int v" for i
    proof -
      have "i = length t"
      proof (rule ccontr)
        assume "i \<noteq> length t"
        with i(1) have "i < length t" by simp
        moreover have "length t < length (t @ [x])" by simp
        ultimately have "(t @ [x]) ! length t \<noteq> int v" using i(3) by blast
        with True show False by simp
      qed
      with nv v isb(2) show ?thesis by simp
    qed
    with True show ?thesis by auto
  next
    case False
    then have nv: "nat x \<noteq> v" using x(1) by auto
    then have same: "?isb ! v = isb ! v" by simp
    from isb(3) v have old: "int v \<notin> set t \<longrightarrow> isb ! v = 0"
      "\<And>i. i < length t \<Longrightarrow> t ! i = int v \<Longrightarrow> (\<forall>j < length t. i < j \<longrightarrow> t ! j \<noteq> int v)
         \<Longrightarrow> isb ! v = int i"
      by blast+
    have "?isb ! v = int i"
      if i: "i < length (t @ [x])" "(t @ [x]) ! i = int v"
        "\<forall>j < length (t @ [x]). i < j \<longrightarrow> (t @ [x]) ! j \<noteq> int v" for i
    proof -
      have il: "i < length t"
      proof (rule ccontr)
        assume "\<not> i < length t"
        with i(1) have "i = length t" by simp
        with i(2) False show False by simp
      qed
      then have "t ! i = int v" using i(2) by (simp add: nth_append)
      moreover have "\<forall>j < length t. i < j \<longrightarrow> t ! j \<noteq> int v"
      proof (intro allI impI)
        fix j assume j: "j < length t" "i < j"
        then have "(t @ [x]) ! j \<noteq> int v" using i(3) by simp
        with j(1) show "t ! j \<noteq> int v" by (simp add: nth_append)
      qed
      ultimately show ?thesis using old(2) [OF il] same by simp
    qed
    with old(1) same False show ?thesis by auto
  qed
  from run isb(2) pol show ?case by (intro exI [of _ ?isb]) simp
qed

declare hex_digits.simps [simp del]

section \<open>Rendering the table\<close>

lemma hex_digits_one: "n < 16 \<Longrightarrow> hex_digits n = [hex_char n]"
  by (subst hex_digits.simps) simp

lemma hex_digits_two:
  "16 \<le> n \<Longrightarrow> n < 256 \<Longrightarrow> hex_digits n = [hex_char (n div 16), hex_char (n mod 16)]"
  by (subst hex_digits.simps) (simp add: hex_digits_one)

lemma format_02X_byte:
  assumes "0 \<le> v" "v < 256"
  shows "format_02X v = [hex_char (nat v div 16), hex_char (nat v mod 16)]"
proof (cases "v < 16")
  case True
  then have "nat v < 16" by simp
  moreover have "hex_char 0 = CHR ''0''" by (simp add: hex_char_def hex_alphabet_def)
  ultimately show ?thesis using True assms by (simp add: format_02X_def hex_digits_one)
next
  case False
  with assms have "16 \<le> nat v" "nat v < 256" by simp_all
  from hex_digits_two [OF this] False assms show ?thesis by (simp add: format_02X_def)
qed

lemma hex_char_upper: "d < 16 \<Longrightarrow> hex_char d \<in> set hex_alphabet"
  unfolding hex_char_def by (rule nth_mem) (simp add: hex_alphabet_def)

lemma rebuild_tables_ok:
  assumes "length matrix = 8" "0 \<le> constant" "constant < 256"
  shows "\<exists>sbox isb. generate_sbox_logic matrix constant = Inr sbox \<and>
           inv_sbox_loop (py_enumerate sbox) (replicate 256 0) = (isb, None) \<and>
           rebuild_tables matrix constant st = (\<lparr>CURRENT_SBOX = sbox, CURRENT_INV_SBOX = isb\<rparr>, None)"
proof -
  from generate_sbox_logic_spec [OF assms] obtain sbox where
    sbox: "generate_sbox_logic matrix constant = Inr sbox" "\<forall>v \<in> set sbox. 0 \<le> v \<and> v < 256"
    by blast
  from sbox(2) have "\<forall>v \<in> set sbox. 0 \<le> v \<and> v < int 256" by simp
  from inv_sbox_loop_policy [OF this] obtain isb where
    "inv_sbox_loop (py_enumerate sbox) (replicate 256 0) = (isb, None)"
    by blast
  with sbox(1) show ?thesis by (simp add: rebuild_tables_def)
qed

lemma run_analysis_ok:
  assumes "length (mi_matrix data) = 8" "0 \<le> mi_constant data" "mi_constant data < 256"
  shows "\<exists>sbox isb. generate_sbox_logic (mi_matrix data) (mi_constant data) = Inr sbox \<and>
           run_analysis data st =
             (\<lparr>CURRENT_SBOX = sbox, CURRENT_INV_SBOX = isb\<rparr>,
              Inr \<lparr>sbox_hex = map format_02X sbox, metrics = metrics_literal\<rparr>)"
proof -
  from rebuild_tables_ok [OF assms, of st] obtain sbox isb where
    "generate_sbox_logic (mi_matrix data) (mi_constant data) = Inr sbox"
    "rebuild_tables (mi_matrix data) (mi_constant data) st
       = (\<lparr>CURRENT_SBOX = sbox, CURRENT_INV_SBOX = isb\<rparr>, None)"
    by blast
  then show ?thesis by (simp add: run_analysis_def)
qed

lemma run_analysis_metrics:
  "run_analysis data st = (st', Inr r) \<Longrightarrow> metrics r = metrics_literal"
  by (auto simp: run_analysis_def split: prod.splits option.splits)

text \<open>
  C6. The inverse table starts as 256 zeros and the entry at index \<open>table[i]\<close> is set to
  \<open>i\<close> for each \<open>i\<close> in ascending order. For a table of bytes, bijective or not, the loop
  raises nothing and returns 256 entries: a value that the table never produces keeps the
  sentinel 0, and a value that it produces holds the last index that produces it (the index
  \<open>i\<close> with \<open>table[i] = v\<close> after which \<open>v\<close> does not occur again).
\<close>

theorem inverse_table_last_wins:
  assumes "\<forall>v \<in> set table. 0 \<le> v \<and> v < 256"
  shows "\<exists>isb. inv_sbox_loop (py_enumerate table) (replicate 256 0) = (isb, None) \<and>
           length isb = 256 \<and>
           (\<forall>v < 256. (int v \<notin> set table \<longrightarrow> isb ! v = 0) \<and>
              (\<forall>i < length table.
                 table ! i = int v \<and> (\<forall>j < length table. i < j \<longrightarrow> table ! j \<noteq> int v)
                 \<longrightarrow> isb ! v = int i))"
proof -
  from assms have "\<forall>v \<in> set table. 0 \<le> v \<and> v < int 256" by simp
  from inv_sbox_loop_policy [OF this] show ?thesis by simp
qed

theorem inverse_table_last_wins_witness:
  "\<exists>isb. inv_sbox_loop (py_enumerate [5, 5, 7]) (replicate 256 0) = (isb, None) \<and>
     length isb = 256 \<and> isb ! 5 = 1 \<and> isb ! 7 = 2 \<and> isb ! 6 = 0"
proof -
  have h: "\<forall>v \<in> set [5, 5, 7 :: int]. 0 \<le> v \<and> v < 256" by simp
  from inverse_table_last_wins [OF h] obtain isb where
    isb: "inv_sbox_loop (py_enumerate [5, 5, 7]) (replicate 256 0) = (isb, None)"
      "length isb = 256"
      "\<forall>v < 256. (int v \<notin> set [5, 5, 7] \<longrightarrow> isb ! v = 0) \<and>
         (\<forall>i < length [5, 5, 7 :: int].
            [5, 5, 7] ! i = int v \<and> (\<forall>j < length [5, 5, 7 :: int]. i < j \<longrightarrow> [5, 5, 7] ! j \<noteq> int v)
            \<longrightarrow> isb ! v = int i)"
    by blast
  from isb(3) [rule_format, of 6] have "isb ! 6 = 0" by simp
  moreover from isb(3) [rule_format, of 5, THEN conjunct2, rule_format, of 1]
  have "isb ! 5 = 1" by (simp add: less_Suc_eq)
  moreover from isb(3) [rule_format, of 7, THEN conjunct2, rule_format, of 2]
  have "isb ! 7 = 2" by simp
  ultimately show ?thesis using isb(1,2) by blast
qed

text \<open>
  C10. For a matrix of eight integers and a constant in 0..255, \<open>apply_affine\<close> returns a
  value in 0..255 for every \<open>byte_val\<close>, and the value depends only on the low eight bits
  of \<open>byte_val\<close> and of each row; so every entry of \<open>generate_sbox_logic\<close> lies in 0..255 and
  the writes \<open>CURRENT_INV_SBOX[val] = i\<close> all index inside the 256 entries: the loop ends
  without an exception.
\<close>

theorem affine_results_are_bytes:
  assumes "length matrix = 8" "0 \<le> constant" "constant < 256"
  shows "(\<exists>v. apply_affine byte_val matrix constant = Inr v \<and> 0 \<le> v \<and> v < 256) \<and>
         apply_affine (byte_val AND 0xFF) (map (\<lambda>r. r AND 0xFF) matrix) constant
           = apply_affine byte_val matrix constant \<and>
         (\<exists>sbox isb. generate_sbox_logic matrix constant = Inr sbox \<and>
            (\<forall>v \<in> set sbox. 0 \<le> v \<and> v < 256) \<and>
            inv_sbox_loop (py_enumerate sbox) (replicate 256 0) = (isb, None))"
proof -
  from generate_sbox_logic_spec [OF assms] obtain sbox where
    sbox: "generate_sbox_logic matrix constant = Inr sbox" "\<forall>v \<in> set sbox. 0 \<le> v \<and> v < 256"
    by blast
  from sbox(2) have "\<forall>v \<in> set sbox. 0 \<le> v \<and> v < int 256" by simp
  from inv_sbox_loop_policy [OF this] obtain isb where
    "inv_sbox_loop (py_enumerate sbox) (replicate 256 0) = (isb, None)"
    by blast
  with sbox apply_affine_byte [OF assms, of byte_val] apply_affine_low_bits [OF assms(1)]
  show ?thesis by blast
qed

theorem affine_results_are_bytes_witness:
  "(\<exists>v. apply_affine 0x1F3 [0x57, 0xAB, 0xD5, 0xEA, 0x75, 0xBA, 0x5D, 0x1AE] 0x63 = Inr v \<and>
      0 \<le> v \<and> v < 256) \<and>
   apply_affine (0x1F3 AND 0xFF)
       (map (\<lambda>r. r AND 0xFF) [0x57, 0xAB, 0xD5, 0xEA, 0x75, 0xBA, 0x5D, 0x1AE]) 0x63
     = apply_affine 0x1F3 [0x57, 0xAB, 0xD5, 0xEA, 0x75, 0xBA, 0x5D, 0x1AE] 0x63 \<and>
   (\<exists>sbox isb. generate_sbox_logic [0x57, 0xAB, 0xD5, 0xEA, 0x75, 0xBA, 0x5D, 0x1AE] 0x63 = Inr sbox \<and>
      (\<forall>v \<in> set sbox. 0 \<le> v \<and> v < 256) \<and>
      inv_sbox_loop (py_enumerate sbox) (replicate 256 0) = (isb, None))"
proof -
  have h: "length [0x57, 0xAB, 0xD5, 0xEA, 0x75, 0xBA, 0x5D, 0x1AE :: int] = 8"
    "(0::int) \<le> 0x63" "(0x63::int) < 256"
    by simp_all
  show ?thesis by (rule affine_results_are_bytes [OF h])
qed

text \<open>
  C5. For a matrix of eight entries and a byte constant, \<open>generate_sbox_logic\<close> returns
  exactly 256 entries, the entry at index \<open>x\<close> being
  \<open>apply_affine(gf_inverse(x), matrix, constant)\<close>; \<open>run_analysis\<close> stores this table and
  renders it as 256 tokens of two upper-case hexadecimal digits each, the high digit first.
\<close>

theorem sbox_entries_and_hex_tokens:
  assumes "length (mi_matrix data) = 8" "0 \<le> mi_constant data" "mi_constant data < 256"
  shows "\<exists>sbox st' resp.
           generate_sbox_logic (mi_matrix data) (mi_constant data) = Inr sbox \<and>
           length sbox = 256 \<and>
           (\<forall>x < 256. apply_affine (gf_inverse (int x)) (mi_matrix data) (mi_constant data)
                        = Inr (sbox ! x)) \<and>
           run_analysis data st = (st', Inr resp) \<and>
           CURRENT_SBOX st' = sbox \<and>
           length (sbox_hex resp) = 256 \<and>
           (\<forall>x < 256. sbox_hex resp ! x
                          = [hex_char (nat (sbox ! x) div 16), hex_char (nat (sbox ! x) mod 16)] \<and>
                        set (sbox_hex resp ! x) \<subseteq> set hex_alphabet)"
proof -
  let ?m = "mi_matrix data" and ?c = "mi_constant data"
  from generate_sbox_logic_spec [OF assms] obtain sbox where
    sbox: "generate_sbox_logic ?m ?c = Inr sbox" "length sbox = 256"
      "\<forall>x < 256. apply_affine (gf_inverse (int x)) ?m ?c = Inr (sbox ! x)"
      "\<forall>v \<in> set sbox. 0 \<le> v \<and> v < 256"
    by blast
  from run_analysis_ok [OF assms, of st] sbox(1) obtain isb where
    run: "run_analysis data st =
            (\<lparr>CURRENT_SBOX = sbox, CURRENT_INV_SBOX = isb\<rparr>,
             Inr \<lparr>sbox_hex = map format_02X sbox, metrics = metrics_literal\<rparr>)"
    by auto
  have tok: "map format_02X sbox ! x
               = [hex_char (nat (sbox ! x) div 16), hex_char (nat (sbox ! x) mod 16)] \<and>
             set (map format_02X sbox ! x) \<subseteq> set hex_alphabet"
    if x: "x < 256" for x
  proof -
    from x sbox(2,4) have b: "0 \<le> sbox ! x" "sbox ! x < 256"
      by (simp_all add: nth_mem)
    then have d: "nat (sbox ! x) div 16 < 16" "nat (sbox ! x) mod 16 < 16" by auto
    have e: "map format_02X sbox ! x
               = [hex_char (nat (sbox ! x) div 16), hex_char (nat (sbox ! x) mod 16)]"
      using x sbox(2) format_02X_byte [OF b] by simp
    from hex_char_upper [OF d(1)] hex_char_upper [OF d(2)]
    show ?thesis unfolding e by simp
  qed
  let ?st = "\<lparr>CURRENT_SBOX = sbox, CURRENT_INV_SBOX = isb\<rparr>"
  let ?resp = "\<lparr>sbox_hex = map format_02X sbox, metrics = metrics_literal\<rparr>"
  have hex: "sbox_hex ?resp = map format_02X sbox" by simp
  have "length (sbox_hex ?resp) = 256" using sbox(2) by simp
  moreover have "\<forall>x < 256. sbox_hex ?resp ! x
                   = [hex_char (nat (sbox ! x) div 16), hex_char (nat (sbox ! x) mod 16)] \<and>
                 set (sbox_hex ?resp ! x) \<subseteq> set hex_alphabet"
    unfolding hex using tok by blast
  moreover have "CURRENT_SBOX ?st = sbox" by simp
  ultimately show ?thesis using sbox(1-3) run by blast
qed

theorem sbox_entries_and_hex_tokens_witness:
  "\<exists>sbox st' resp.
     generate_sbox_logic [1, 2, 4, 8, 16, 32, 64, 128] 0 = Inr sbox \<and>
     length sbox = 256 \<and>
     (\<forall>x < 256. apply_affine (gf_inverse (int x)) [1, 2, 4, 8, 16, 32, 64, 128] 0
                  = Inr (sbox ! x)) \<and>
     run_analysis \<lparr>mi_matrix = [1, 2, 4, 8, 16, 32, 64, 128], mi_constant = 0\<rparr>
         \<lparr>CURRENT_SBOX = [], CURRENT_INV_SBOX = []\<rparr> = (st', Inr resp) \<and>
     CURRENT_SBOX st' = sbox \<and>
     length (sbox_hex resp) = 256 \<and>
     (\<forall>x < 256. sbox_hex resp ! x
                    = [hex_char (nat (sbox ! x) div 16), hex_char (nat (sbox ! x) mod 16)] \<and>
                  set (sbox_hex resp ! x) \<subseteq> set hex_alphabet)"
  using sbox_entries_and_hex_tokens
    [of "\<lparr>mi_matrix = [1, 2, 4, 8, 16, 32, 64, 128], mi_constant = 0\<rparr>"
        "\<lparr>CURRENT_SBOX = [], CURRENT_INV_SBOX = []\<rparr>"]
  by simp

text \<open>
  C8. The metrics of the response of \<open>run_analysis\<close> are the literal of the source, whatever
  the matrix and the constant: two well-formed requests, in any two states, are answered
  with the same metrics, which no part of the generated table enters.
\<close>

theorem metrics_are_fixed:
  assumes "length (mi_matrix d1) = 8" "0 \<le> mi_constant d1" "mi_constant d1 < 256"
    and "length (mi_matrix d2) = 8" "0 \<le> mi_constant d2" "mi_constant d2 < 256"
  shows "\<exists>s1' r1 s2' r2. run_analysis d1 s1 = (s1', Inr r1) \<and> run_analysis d2 s2 = (s2', Inr r2) \<and>
           metrics r1 = metrics r2 \<and> metrics r1 = metrics_literal"
proof -
  from run_analysis_ok [OF assms(1-3), of s1] obtain s1' r1 where
    r1: "run_analysis d1 s1 = (s1', Inr r1)" by blast
  from run_analysis_ok [OF assms(4-6), of s2] obtain s2' r2 where
    r2: "run_analysis d2 s2 = (s2', Inr r2)" by blast
  from run_analysis_metrics [OF r1] run_analysis_metrics [OF r2] r1 r2
  show ?thesis by auto
qed

theorem metrics_are_fixed_witness:
  "\<exists>s1' r1 s2' r2.
     run_analysis \<lparr>mi_matrix = [0x57, 0xAB, 0xD5, 0xEA, 0x75, 0xBA, 0x5D, 0xAE], mi_constant = 0x63\<rparr>
         \<lparr>CURRENT_SBOX = [], CURRENT_INV_SBOX = []\<rparr> = (s1', Inr r1) \<and>
     run_analysis \<lparr>mi_matrix = [0, 0, 0, 0, 0, 0, 0, 0], mi_constant = 7\<rparr>
         \<lparr>CURRENT_SBOX = [], CURRENT_INV_SBOX = []\<rparr> = (s2', Inr r2) \<and>
     metrics r1 = metrics r2 \<and> metrics r1 = metrics_literal"
  using metrics_are_fixed
    [of "\<lparr>mi_matrix = [0x57, 0xAB, 0xD5, 0xEA, 0x75, 0xBA, 0x5D, 0xAE], mi_constant = 0x63\<rparr>"
        "\<lparr>mi_matrix = [0, 0, 0, 0, 0, 0, 0, 0], mi_constant = 7\<rparr>"
        "\<lparr>CURRENT_SBOX = [], CURRENT_INV_SBOX = []\<rparr>"
        "\<lparr>CURRENT_SBOX = [], CURRENT_INV_SBOX = []\<rparr>"]
  by simp

end
